theory Spec2Isabelle
  imports Complex_Main "HOL-Library.Multiset" "HOL-Library.Char_ord" "HOL-Library.List_Lexorder"
    "HOL-Library.Log_Nat" "HOL-Library.Sublist"
begin

section \<open>Errors and the analyzer\<close>

text \<open>
  Exceptions of the collaborators (the web3 client, the node behind it) and of Python's
  arithmetic are values: \<open>TimeoutError\<close> is \<open>asyncio.TimeoutError\<close>, \<open>Exception msg\<close>
  any other exception of a collaborator with its message; \<open>str\<close> is the message.
\<close>

datatype error = TimeoutError | ZeroDivisionError | OverflowError | Exception string

fun str :: "error \<Rightarrow> string" where
  "str TimeoutError = []"
| "str ZeroDivisionError = ''division by zero''"
| "str OverflowError = ''integer division result too large for a float''"
| "str (Exception msg) = msg"

text \<open>
  What the repository's own code ends in when it gives up. The endpoints of server.py
  raise \<open>HTTPException(status_code=400, detail=str(e))\<close>. The handler of
  \<open>get_top_holders\<close> evaluates \<open>requests.HTTPError(status_code=500, detail=...)\<close>; that
  class takes no keyword argument but \<open>request\<close> and \<open>response\<close>, so the call itself
  raises \<open>TypeError\<close>, and this is what leaves the method.
\<close>

datatype raised = TypeError | HTTPException nat string

text \<open>
  \<open>AsyncTokenAnalyzer\<close> after \<open>initialize()\<close>, which both entry points (the startup
  hook of server.py and \<open>main\<close>) run before any other method: \<open>decimals\<close> and
  \<open>symbol\<close> hold what the token contract answered.
\<close>

record analyzer =
  decimals :: nat
  symbol :: string

text \<open>
  Python's true division \<open>a / b\<close> of two integers: the double nearest to the exact
  quotient, ties going to the even mantissa; \<open>OverflowError\<close> when that is beyond the
  largest double. A double is the rational number it stands for. The exponent \<open>e\<close> is
  that of the quotient, not below the smallest normal exponent; the result is a multiple
  of \<open>2 powi (e - 52)\<close>.
\<close>

definition round_half_even :: "rat \<Rightarrow> int" where
  "round_half_even x =
     (let f = \<lfloor>x\<rfloor>; d = x - of_int f
      in if d < 1 / 2 then f else if 1 / 2 < d then f + 1 else if even f then f else f + 1)"

definition true_div :: "int \<Rightarrow> int \<Rightarrow> error + rat" where
  "true_div a b =
     (if b = 0 then Inl ZeroDivisionError
      else if a = 0 then Inr 0
      else
        let x = of_int a / of_int b;
            k = bitlen \<bar>a\<bar> - bitlen \<bar>b\<bar>;
            e = max (if 2 powi k \<le> \<bar>x\<bar> then k else k - 1) (- 1022);
            q = 2 powi (e - 52);
            r = of_int (round_half_even (x / q)) * q
        in if 2 powi 1024 \<le> \<bar>r\<bar> then Inl OverflowError else Inr r)"

text \<open>\<open>_to_decimal\<close>: \<open>value / (10 ** self.decimals)\<close>.\<close>

definition to_decimal :: "analyzer \<Rightarrow> int \<Rightarrow> error + rat" where
  "to_decimal az v = true_div v (10 ^ decimals az)"

section \<open>Balance aggregation and ranking (get_top_holders, steps 2 to 4)\<close>

text \<open>
  The \<open>args\<close> of a decoded Transfer event, read with \<open>args.get\<close>: a missing key is
  \<open>None\<close>.
\<close>

record transfer_event =
  from_addr :: "string option"
  to_addr :: "string option"
  val :: "int option"

definition ZERO_ADDRESS :: string where
  "ZERO_ADDRESS = ''0x0000000000000000000000000000000000000000''"

text \<open>
  \<open>balances = defaultdict(int)\<close>: a dict iterates in insertion order, so the ledger is
  an association list with distinct keys, a new key going to the end.
  \<open>dict_add k d\<close> is \<open>balances[k] += d\<close>.
\<close>

type_synonym ledger = "(string \<times> int) list"

fun dict_add :: "string \<Rightarrow> int \<Rightarrow> ledger \<Rightarrow> ledger" where
  "dict_add k d [] = [(k, 0 + d)]"
| "dict_add k d ((k', v) # kvs) =
     (if k = k' then (k', v + d) # kvs else (k', v) # dict_add k d kvs)"

text \<open>\<open>balances[k]\<close> read without inserting: the default is 0.\<close>

definition balance_of :: "ledger \<Rightarrow> string \<Rightarrow> int" where
  "balance_of b k = (case map_of b k of None \<Rightarrow> 0 | Some v \<Rightarrow> v)"

text \<open>
  Python's truth value of \<open>from_addr and from_addr != '0x00...00'\<close>: \<open>None\<close> and the
  empty string are false.
\<close>

definition counts :: "string option \<Rightarrow> bool" where
  "counts a = (case a of None \<Rightarrow> False | Some s \<Rightarrow> s \<noteq> [] \<and> s \<noteq> ZERO_ADDRESS)"

definition apply_event :: "ledger \<Rightarrow> transfer_event \<Rightarrow> ledger" where
  "apply_event balances event =
     (let value = (case val event of None \<Rightarrow> 0 | Some v \<Rightarrow> v);
          b1 = (if counts (from_addr event)
                then dict_add (the (from_addr event)) (- value) balances else balances)
      in if counts (to_addr event) then dict_add (the (to_addr event)) value b1 else b1)"

definition aggregate :: "transfer_event list \<Rightarrow> ledger" where
  "aggregate transfer_events = foldl apply_event [] transfer_events"

text \<open>
  The list comprehension of step 3: the entries with a positive balance, in the order of
  the dict, each balance divided by \<open>10 ** self.decimals\<close>; a division that raises ends
  the comprehension.
\<close>

fun non_zero :: "analyzer \<Rightarrow> ledger \<Rightarrow> error + (string \<times> rat) list" where
  "non_zero az [] = Inr []"
| "non_zero az ((addr, bal) # balances) =
     (if bal > 0 then
        (case true_div bal (10 ^ decimals az) of
           Inl e \<Rightarrow> Inl e
         | Inr x \<Rightarrow>
             (case non_zero az balances of
                Inl e \<Rightarrow> Inl e
              | Inr xs \<Rightarrow> Inr ((addr, x) # xs)))
      else non_zero az balances)"

text \<open>
  \<open>sorted(xs, key=lambda x: x[1], reverse=True)\<close>: Python's sort is stable, also with
  \<open>reverse=True\<close> (elements with equal keys keep their order), so it is the stable
  sort by the negated key.
\<close>

definition sorted_reverse :: "(string \<times> rat) list \<Rightarrow> (string \<times> rat) list" where
  "sorted_reverse xs = sort_key (\<lambda>x. - snd x) xs"

text \<open>Steps 2 to 4 of \<open>get_top_holders\<close>, for \<open>n > 0\<close> and a non-empty event list.\<close>

definition rank_holders ::
  "analyzer \<Rightarrow> transfer_event list \<Rightarrow> int \<Rightarrow> error + (string \<times> rat) list" where
  "rank_holders az transfer_events n =
     (case non_zero az (aggregate transfer_events) of
        Inl e \<Rightarrow> Inl e
      | Inr xs \<Rightarrow> Inr (take (nat n) (sorted_reverse xs)))"

section \<open>The chunked log fetch (_get_all_transfer_events)\<close>

text \<open>A raw log entry as \<open>w3.eth.get_logs\<close> returns it.\<close>

record log_entry =
  blockNumber :: int
  transactionHash :: string

text \<open>
  What one awaited \<open>asyncio.wait_for(self.w3.eth.get_logs(...), timeout=30)\<close> does:
  it returns the logs, raises \<open>asyncio.TimeoutError\<close>, or raises something else.
\<close>

datatype response = Logs "log_entry list" | Timeout | Failed string

text \<open>
  The node as the fetch sees it. The answer to a range query may change from one attempt
  to the next, so \<open>get_logs\<close> takes the number of range queries issued before this one,
  then \<open>fromBlock\<close> and \<open>toBlock\<close>. \<open>get_event_data\<close> decodes one log or raises.
\<close>

record node =
  block_number :: "error + int"
  get_logs :: "nat \<Rightarrow> int \<Rightarrow> int \<Rightarrow> response"
  get_event_data :: "log_entry \<Rightarrow> error + transfer_event"

text \<open>
  The variables of the scan, and with them its two effects on the outside: the range
  queries it has issued (\<open>queries\<close>, oldest first) and the delays it has slept
  (\<open>sleeps\<close>, in seconds).
\<close>

record scan =
  from_block :: int
  events :: "transfer_event list"
  queries :: "(int \<times> int) list"
  sleeps :: "int list"

text \<open>
  \<open>for log in logs: try: events.append(get_event_data(...)) except Exception: print\<close>:
  a log that does not decode is skipped.
\<close>

fun parse_logs :: "node \<Rightarrow> log_entry list \<Rightarrow> transfer_event list" where
  "parse_logs nd [] = []"
| "parse_logs nd (entry # logs) =
     (case get_event_data nd entry of
        Inl e \<Rightarrow> parse_logs nd logs
      | Inr event \<Rightarrow> event # parse_logs nd logs)"

text \<open>
  The inner loop \<open>while retries < max_retries\<close> for the chunk that ends at
  \<open>to_block\<close>. On success \<open>from_block\<close> moves past the chunk; on a timeout the count
  goes up and the loop sleeps \<open>2 ** retries\<close>; on any other exception the loop is left.
\<close>

function retry_loop :: "node \<Rightarrow> int \<Rightarrow> int \<Rightarrow> int \<Rightarrow> scan \<Rightarrow> scan" where
  "retry_loop nd max_retries to_block retries s =
     (if retries < max_retries then
        (case get_logs nd (length (queries s)) (from_block s) to_block of
           Logs logs \<Rightarrow>
             s\<lparr>from_block := to_block + 1,
               events := events s @ parse_logs nd logs,
               queries := queries s @ [(from_block s, to_block)]\<rparr>
         | Timeout \<Rightarrow>
             retry_loop nd max_retries to_block (retries + 1)
               (s\<lparr>queries := queries s @ [(from_block s, to_block)],
                  sleeps := sleeps s @ [2 ^ nat (retries + 1)]\<rparr>)
         | Failed msg \<Rightarrow>
             s\<lparr>queries := queries s @ [(from_block s, to_block)]\<rparr>)
      else s)"
  by pat_completeness auto
termination
  by (relation "measure (\<lambda>(nd, max_retries, to_block, retries, s). nat (max_retries - retries))") auto

declare retry_loop.simps [simp del]

text \<open>
  The outer loop \<open>while from_block <= current_block\<close>. Nothing bounds it, so it is a
  partial function: \<open>None\<close> is a scan that never returns.
\<close>

partial_function (option) scan_loop :: "node \<Rightarrow> int \<Rightarrow> int \<Rightarrow> int \<Rightarrow> scan \<Rightarrow> scan option" where
  "scan_loop nd max_retries chunk_size current_block s =
     (if from_block s \<le> current_block then
        scan_loop nd max_retries chunk_size current_block
          (retry_loop nd max_retries (min (from_block s + chunk_size - 1) current_block) 0 s)
      else Some s)"

declare scan_loop.simps [code]

text \<open>
  The whole method, with the state it ends in; the method's return value is its
  \<open>events\<close>. A failure of \<open>self.w3.eth.block_number\<close> is not caught here.
\<close>

definition scan_all :: "node \<Rightarrow> int \<Rightarrow> int \<Rightarrow> (error + scan) option" where
  "scan_all nd max_retries chunk_size =
     (case block_number nd of
        Inl e \<Rightarrow> Some (Inl e)
      | Inr current_block \<Rightarrow>
          map_option Inr
            (scan_loop nd max_retries chunk_size current_block
               \<lparr>from_block = 0, events = [], queries = [], sleeps = []\<rparr>))"

definition get_all_transfer_events :: "node \<Rightarrow> int \<Rightarrow> int \<Rightarrow> (error + transfer_event list) option" where
  "get_all_transfer_events nd max_retries chunk_size =
     map_option (map_sum id events) (scan_all nd max_retries chunk_size)"

text \<open>
  \<open>get_top_holders\<close>: the fetch runs with the default \<open>max_retries=3\<close> and
  \<open>chunk_size=1000000\<close>; whatever is raised inside the \<open>try\<close> reaches the handler,
  which ends in \<open>TypeError\<close>.
\<close>

definition get_top_holders ::
  "analyzer \<Rightarrow> node \<Rightarrow> int \<Rightarrow> (raised + (string \<times> rat) list) option" where
  "get_top_holders az nd n =
     (if n \<le> 0 then Some (Inr [])
      else
        (case get_all_transfer_events nd 3 1000000 of
           None \<Rightarrow> None
         | Some (Inl e) \<Rightarrow> Some (Inl TypeError)
         | Some (Inr transfer_events) \<Rightarrow>
             if transfer_events = [] then Some (Inr [])
             else
               (case rank_holders az transfer_events n of
                  Inl e \<Rightarrow> Some (Inl TypeError)
                | Inr ranked \<Rightarrow> Some (Inr ranked))))"

section \<open>Last activity (_get_last_transaction_date, get_top_with_transactions)\<close>

text \<open>
  What the resolver asks of the outside. \<open>encode_address\<close> is
  \<open>w3.to_hex(w3.codec.encode(['address'], [address]))\<close>; \<open>get_logs_topics s r\<close> is the
  query from block 0 to \<open>latest\<close> with the sender topic \<open>s\<close> and the receiver topic
  \<open>r\<close> (\<open>None\<close> matches any); \<open>get_block n\<close> is the \<open>timestamp\<close> of block \<open>n\<close>;
  \<open>utcoffset t\<close> is the offset in seconds of the process's local time zone from UTC at
  the instant \<open>t\<close>, which \<open>datetime.fromtimestamp\<close> applies; \<open>short_year y\<close> is what the
  platform's \<open>strftime\<close> prints for \<open>%Y\<close> when the year is below 1000 (padded to four
  digits on some platforms, not on others).
\<close>

record history =
  encode_address :: "string \<Rightarrow> error + string"
  get_logs_topics :: "string option \<Rightarrow> string option \<Rightarrow> error + log_entry list"
  get_block :: "int \<Rightarrow> error + int"
  utcoffset :: "int \<Rightarrow> int"
  short_year :: "int \<Rightarrow> string"

record datetime =
  year :: int
  month :: int
  day :: int
  hour :: int
  minute :: int
  second :: int

text \<open>The date of the proleptic Gregorian calendar, from the days since 1970-01-01.\<close>

definition civil_from_days :: "int \<Rightarrow> int \<times> int \<times> int" where
  "civil_from_days z0 =
     (let z = z0 + 719468;
          era = z div 146097;
          doe = z mod 146097;
          yoe = (doe - doe div 1460 + doe div 36524 - doe div 146096) div 365;
          doy = doe - (365 * yoe + yoe div 4 - yoe div 100);
          mp = (5 * doy + 2) div 153;
          d = doy - (153 * mp + 2) div 5 + 1;
          m = (if mp < 10 then mp + 3 else mp - 9)
      in (yoe + era * 400 + (if m \<le> 2 then 1 else 0), m, d))"

text \<open>
  \<open>datetime.fromtimestamp(timestamp)\<close>: the naive local time; a year outside 1..9999
  raises.
\<close>

definition fromtimestamp :: "history \<Rightarrow> int \<Rightarrow> error + datetime" where
  "fromtimestamp h timestamp =
     (let t = timestamp + utcoffset h timestamp;
          (y, m, d) = civil_from_days (t div 86400);
          r = t mod 86400
      in if y < 1 \<or> 9999 < y then Inl (Exception ''year is out of range'')
         else Inr \<lparr>year = y, month = m, day = d,
                   hour = r div 3600, minute = r mod 3600 div 60, second = r mod 60\<rparr>)"

definition digit :: "int \<Rightarrow> char" where
  "digit n = ''0123456789'' ! nat (n mod 10)"

definition pad2 :: "int \<Rightarrow> string" where
  "pad2 n = [digit (n div 10), digit n]"

definition pad4 :: "int \<Rightarrow> string" where
  "pad4 n = [digit (n div 1000), digit (n div 100), digit (n div 10), digit n]"

text \<open>
  \<open>strftime("%Y-%m-%d %H:%M:%S")\<close>: the year in four digits from 1000 on, every other
  field in two digits.
\<close>

definition strftime :: "history \<Rightarrow> datetime \<Rightarrow> string" where
  "strftime h dt =
     (if 1000 \<le> year dt then pad4 (year dt) else short_year h (year dt)) @
     ''-'' @ pad2 (month dt) @ ''-'' @ pad2 (day dt) @ '' '' @
     pad2 (hour dt) @ '':'' @ pad2 (minute dt) @ '':'' @ pad2 (second dt)"

text \<open>
  The choice of \<open>last_tx\<close>. \<open>max(a, b, key=...)\<close> returns \<open>a\<close> unless the key of \<open>b\<close> is
  strictly greater.
\<close>

fun select_last_tx :: "log_entry list \<Rightarrow> log_entry list \<Rightarrow> log_entry option" where
  "select_last_tx (i # incoming_tx) (out # outgoing_tx) =
     Some (if blockNumber i < blockNumber out then out else i)"
| "select_last_tx (i # incoming_tx) [] = Some i"
| "select_last_tx [] (out # outgoing_tx) = Some out"
| "select_last_tx [] [] = None"

definition get_last_transaction_date :: "history \<Rightarrow> string \<Rightarrow> string" where
  "get_last_transaction_date h address =
     (case encode_address h address of
        Inl e \<Rightarrow> ''Error''
      | Inr address_topic \<Rightarrow>
     (case get_logs_topics h None (Some address_topic) of
        Inl e \<Rightarrow> ''Error''
      | Inr incoming_tx \<Rightarrow>
     (case get_logs_topics h (Some address_topic) None of
        Inl e \<Rightarrow> ''Error''
      | Inr outgoing_tx \<Rightarrow>
     (case select_last_tx incoming_tx outgoing_tx of
        None \<Rightarrow> ''No transactions''
      | Some last_tx \<Rightarrow>
     (case get_block h (blockNumber last_tx) of
        Inl e \<Rightarrow> ''Error''
      | Inr timestamp \<Rightarrow>
     (case fromtimestamp h timestamp of
        Inl e \<Rightarrow> ''Error''
      | Inr dt \<Rightarrow> strftime h dt))))))"

definition get_top_with_transactions ::
  "analyzer \<Rightarrow> node \<Rightarrow> history \<Rightarrow> int \<Rightarrow> (raised + (string \<times> rat \<times> string) list) option" where
  "get_top_with_transactions az nd h n =
     (case get_top_holders az nd n of
        None \<Rightarrow> None
      | Some (Inl e) \<Rightarrow> Some (Inl e)
      | Some (Inr top_holders) \<Rightarrow>
          if top_holders = [] then Some (Inr [])
          else Some (Inr (map (\<lambda>(address, balance).
                                 (address, balance, get_last_transaction_date h address))
                              top_holders)))"

section \<open>Balances (get_balance, get_balance_batch and its endpoint)\<close>

text \<open>
  The token contract behind \<open>balanceOf\<close>. \<open>latency a\<close> is how long the call for \<open>a\<close>
  takes: the calls of a batch run concurrently and \<open>asyncio.gather\<close> propagates the
  exception that is raised first.
\<close>

record token_contract =
  to_checksum_address :: "string \<Rightarrow> error + string"
  balanceOf :: "string \<Rightarrow> error + int"
  latency :: "string \<Rightarrow> nat"

definition get_balance :: "analyzer \<Rightarrow> token_contract \<Rightarrow> string \<Rightarrow> error + rat" where
  "get_balance az tc address =
     (case to_checksum_address tc address of
        Inl e \<Rightarrow> Inl e
      | Inr a \<Rightarrow>
          (case balanceOf tc a of
             Inl e \<Rightarrow> Inl e
           | Inr balance \<Rightarrow> to_decimal az balance))"

text \<open>
  The instant at which the task of one address ends: at once when the address is
  rejected before the call is made, after the call's latency otherwise.
\<close>

definition finished_at :: "token_contract \<Rightarrow> string \<Rightarrow> nat" where
  "finished_at tc address =
     (case to_checksum_address tc address of
        Inl e \<Rightarrow> 0
      | Inr a \<Rightarrow> Suc (latency tc a))"

text \<open>
  \<open>asyncio.gather(*tasks)\<close> with the default \<open>return_exceptions=False\<close>: the results in
  the order of the tasks when none raises, the exception raised first otherwise (the
  earlier task where two end at the same instant).
\<close>

fun first_raised :: "(nat \<times> (error + 'a)) list \<Rightarrow> (nat \<times> error) option" where
  "first_raised [] = None"
| "first_raised ((t, Inr v) # tasks) = first_raised tasks"
| "first_raised ((t, Inl e) # tasks) =
     (case first_raised tasks of
        None \<Rightarrow> Some (t, e)
      | Some (t', e') \<Rightarrow> if t' < t then Some (t', e') else Some (t, e))"

fun results :: "(nat \<times> (error + 'a)) list \<Rightarrow> 'a list" where
  "results [] = []"
| "results ((t, Inr v) # tasks) = v # results tasks"
| "results ((t, Inl e) # tasks) = results tasks"

definition gather :: "(nat \<times> (error + 'a)) list \<Rightarrow> error + 'a list" where
  "gather tasks =
     (case first_raised tasks of
        Some (t, e) \<Rightarrow> Inl e
      | None \<Rightarrow> Inr (results tasks))"

definition get_balance_batch :: "analyzer \<Rightarrow> token_contract \<Rightarrow> string list \<Rightarrow> error + rat list" where
  "get_balance_batch az tc addresses =
     gather (map (\<lambda>addr. (finished_at tc addr, get_balance az tc addr)) addresses)"

text \<open>The endpoint \<open>/get_balance_batch\<close> of server.py.\<close>

definition endpoint_get_balance_batch ::
  "analyzer \<Rightarrow> token_contract \<Rightarrow> string list \<Rightarrow> raised + (string list \<times> rat list \<times> string)" where
  "endpoint_get_balance_batch az tc addresses =
     (case get_balance_batch az tc addresses of
        Inl e \<Rightarrow> Inl (HTTPException 400 (str e))
      | Inr balances \<Rightarrow> Inr (addresses, balances, symbol az))"

section \<open>Notions used in the statements about the ledger\<close>

text \<open>
  The change that one event makes to the balance of the account \<open>a\<close>, and the accounts
  whose entry the event writes.
\<close>

definition delta :: "transfer_event \<Rightarrow> string \<Rightarrow> int" where
  "delta e a =
     (let v = (case val e of None \<Rightarrow> 0 | Some v \<Rightarrow> v)
      in (if counts (to_addr e) \<and> to_addr e = Some a then v else 0)
         - (if counts (from_addr e) \<and> from_addr e = Some a then v else 0))"

definition touched :: "transfer_event \<Rightarrow> string set" where
  "touched e = {a. counts (Some a) \<and> (from_addr e = Some a \<or> to_addr e = Some a)}"

text \<open>
  The chunks of the block range from 0 to \<open>H\<close> for the chunk size \<open>C\<close>: the i-th starts
  at \<open>i * C\<close> and ends \<open>C\<close> blocks later or at \<open>H\<close>.
\<close>

definition chunks :: "int \<Rightarrow> int \<Rightarrow> (int \<times> int) list" where
  "chunks C H = map (\<lambda>i. (int i * C, min (int i * C + C - 1) H)) [0..<nat (H div C + 1)]"

text \<open>
  The shape \<open>YYYY-MM-DD HH:MM:SS\<close> that the docstring of \<open>_get_last_transaction_date\<close>
  names: nineteen characters, digits but for the separators.
\<close>

definition is_digit :: "char \<Rightarrow> bool" where
  "is_digit c = (c \<in> set ''0123456789'')"

definition timestamp_format :: "string \<Rightarrow> bool" where
  "timestamp_format s =
     (length s = 19
      \<and> list_all is_digit (map ((!) s) [0, 1, 2, 3, 5, 6, 8, 9, 11, 12, 14, 15, 17, 18])
      \<and> s ! 4 = CHR ''-'' \<and> s ! 7 = CHR ''-'' \<and> s ! 10 = CHR '' ''
      \<and> s ! 13 = CHR '':'' \<and> s ! 16 = CHR '':'')"

section \<open>Concrete inputs\<close>

definition az0 :: analyzer where
  "az0 = \<lparr>decimals = 0, symbol = ''TKN''\<rparr>"

definition addr1 :: string where
  "addr1 = ''0x1111111111111111111111111111111111111111''"

definition addr2 :: string where
  "addr2 = ''0x2222222222222222222222222222222222222222''"

text \<open>A contract whose \<open>balanceOf\<close> reverts for \<open>addr1\<close> and answers 7 for every other address.\<close>

definition tc_one_fails :: token_contract where
  "tc_one_fails =
     \<lparr>to_checksum_address = Inr,
      balanceOf = (\<lambda>a. if a = addr1 then Inl (Exception ''execution reverted'') else Inr 7),
      latency = (\<lambda>a. 1)\<rparr>"

text \<open>A contract that answers 7 for every address.\<close>

definition tc_ok :: token_contract where
  "tc_ok = \<lparr>to_checksum_address = Inr, balanceOf = (\<lambda>a. Inr 7), latency = (\<lambda>a. 1)\<rparr>"

text \<open>Events: 100 minted to \<open>addr1\<close>, 5 minted to \<open>addr2\<close>, 40 moved from \<open>addr1\<close> to \<open>addr2\<close>.\<close>

definition mint1 :: transfer_event where
  "mint1 = \<lparr>from_addr = Some ZERO_ADDRESS, to_addr = Some addr1, val = Some 100\<rparr>"

definition mint2 :: transfer_event where
  "mint2 = \<lparr>from_addr = Some ZERO_ADDRESS, to_addr = Some addr2, val = Some 5\<rparr>"

definition move12 :: transfer_event where
  "move12 = \<lparr>from_addr = Some addr1, to_addr = Some addr2, val = Some 40\<rparr>"

text \<open>
  Nodes at height 0, so that the scan has the single chunk \<open>[0, 0]\<close>: one whose range
  query always fails with an error that is not a timeout, and one whose range query
  times out three times and answers from the fourth attempt on.
\<close>

definition node_always_fails :: node where
  "node_always_fails =
     \<lparr>block_number = Inr 0,
      get_logs = (\<lambda>k f t. Failed ''query returned more than 10000 results''),
      get_event_data = (\<lambda>l. Inl (Exception ''mismatched abi''))\<rparr>"

definition node_three_timeouts :: node where
  "node_three_timeouts =
     \<lparr>block_number = Inr 0,
      get_logs = (\<lambda>k f t. if k < 3 then Timeout else Logs []),
      get_event_data = (\<lambda>l. Inl (Exception ''mismatched abi''))\<rparr>"

text \<open>A node at height 2499999 with no matching logs: three chunks of the default size.\<close>

definition node_quiet :: node where
  "node_quiet =
     \<lparr>block_number = Inr 2499999,
      get_logs = (\<lambda>k f t. Logs []),
      get_event_data = (\<lambda>l. Inl (Exception ''mismatched abi''))\<rparr>"

text \<open>A mint of amount 0 to \<open>addr1\<close> and a burn of amount 0 from \<open>addr1\<close>.\<close>

definition mint_nothing :: transfer_event where
  "mint_nothing = \<lparr>from_addr = Some ZERO_ADDRESS, to_addr = Some addr1, val = Some 0\<rparr>"

definition burn_nothing :: transfer_event where
  "burn_nothing = \<lparr>from_addr = Some addr1, to_addr = Some ZERO_ADDRESS, val = Some 0\<rparr>"

text \<open>
  A node at height 0 whose range query returns two logs, decoded as the mint of 100 to
  \<open>addr1\<close> and the mint of 5 to \<open>addr2\<close>.
\<close>

definition node_two_holders :: node where
  "node_two_holders =
     \<lparr>block_number = Inr 0,
      get_logs = (\<lambda>k f t. Logs [\<lparr>blockNumber = 0, transactionHash = ''0x01''\<rparr>,
                               \<lparr>blockNumber = 0, transactionHash = ''0x02''\<rparr>]),
      get_event_data = (\<lambda>l. if transactionHash l = ''0x01'' then Inr mint1 else Inr mint2)\<rparr>"

text \<open>
  A history in which the receiver-filtered query for \<open>addr1\<close> fails and \<open>addr2\<close> appears
  in no transfer. The topic of an address is the address itself.
\<close>

definition history_one_fails :: history where
  "history_one_fails =
     \<lparr>encode_address = Inr,
      get_logs_topics = (\<lambda>s r. if r = Some addr1 then Inl (Exception ''query timeout exceeded'')
                                 else Inr []),
      get_block = (\<lambda>n. Inr 0),
      utcoffset = (\<lambda>t. 0),
      short_year = (\<lambda>y. [])\<rparr>"

text \<open>
  A history in which \<open>addr1\<close> last received at block 100 and last sent at block 150;
  block 100 has the timestamp 1700000000 (2023-11-14 22:13:20 UTC) and block 150 the
  timestamp 1700000300. The process runs three hours east of UTC.
\<close>

definition history_utc3 :: history where
  "history_utc3 =
     \<lparr>encode_address = Inr,
      get_logs_topics = (\<lambda>s r. if r = Some addr1
                                 then Inr [\<lparr>blockNumber = 100, transactionHash = ''0x0a''\<rparr>]
                                 else if s = Some addr1
                                 then Inr [\<lparr>blockNumber = 150, transactionHash = ''0x0b''\<rparr>]
                                 else Inr []),
      get_block = (\<lambda>n. if n = 100 then Inr 1700000000 else Inr 1700000300),
      utcoffset = (\<lambda>t. 10800),
      short_year = (\<lambda>y. [])\<rparr>"

section \<open>Division on small numbers\<close>

lemmas true_div_eval = true_div_def round_half_even_def Let_def compute_bitlen power_int_minus

lemma true_div_7: "true_div 7 1 = Inr 7"
  by (simp add: true_div_eval)

section \<open>The batch balance lookup\<close>

lemma first_raised_None_iff:
  "first_raised tasks = None \<longleftrightarrow> (\<forall>t \<in> set tasks. \<exists>v. snd t = Inr v)"
proof (induction tasks rule: first_raised.induct)
  case 1
  show ?case by simp
next
  case (2 t v tasks)
  then show ?case by simp
next
  case (3 t e tasks)
  show ?case by (simp split: option.split)
qed

lemma results_all_ok:
  "\<forall>t \<in> set tasks. \<exists>v. snd t = Inr v \<Longrightarrow> map Inr (results tasks) = map snd tasks"
  by (induction tasks rule: results.induct) auto

lemma first_raised_Some:
  "first_raised tasks = Some (t, e) \<Longrightarrow> (t, Inl e) \<in> set tasks"
  by (induction tasks arbitrary: t e rule: first_raised.induct)
     (auto split: option.splits if_splits)

text \<open>
  C10. When the lookup of every address of the input succeeds, the batch lookup returns a
  list of the same length as the input whose i-th element is the balance of the i-th
  address.
\<close>

theorem batch_preserves_order:
  assumes "\<forall>a \<in> set addresses. \<exists>b. get_balance az tc a = Inr b"
  shows "\<exists>balances. get_balance_batch az tc addresses = Inr balances
           \<and> length balances = length addresses
           \<and> (\<forall>i < length addresses. get_balance az tc (addresses ! i) = Inr (balances ! i))"
proof -
  let ?tasks = "map (\<lambda>addr. (finished_at tc addr, get_balance az tc addr)) addresses"
  have ok: "\<forall>t \<in> set ?tasks. \<exists>v. snd t = Inr v"
    using assms by auto
  then have none: "first_raised ?tasks = None"
    by (simp only: first_raised_None_iff)
  have m: "map Inr (results ?tasks) = map (get_balance az tc) addresses"
    using results_all_ok[OF ok] by (simp add: comp_def)
  have len: "length (results ?tasks) = length addresses"
    using arg_cong[OF m, of length] by simp
  have nth: "get_balance az tc (addresses ! i) = Inr (results ?tasks ! i)"
    if "i < length addresses" for i
    using arg_cong[OF m, of "\<lambda>xs. xs ! i"] that len by simp
  show ?thesis
    using none len nth by (simp add: get_balance_batch_def gather_def)
qed

theorem batch_preserves_order_witness:
  "get_balance az0 tc_ok addr1 = Inr 7 \<and> get_balance az0 tc_ok addr2 = Inr 7
   \<and> get_balance_batch az0 tc_ok [addr1, addr2] = Inr [7, 7]"
proof -
  have g: "get_balance az0 tc_ok a = Inr 7" for a
    by (simp add: get_balance_def tc_ok_def to_decimal_def az0_def true_div_7)
  have h: "\<forall>a \<in> set [addr1, addr2]. \<exists>b. get_balance az0 tc_ok a = Inr b"
    by (simp add: g)
  from batch_preserves_order [OF h] obtain balances where
    b: "get_balance_batch az0 tc_ok [addr1, addr2] = Inr balances"
    and l: "length balances = 2"
    and n: "\<forall>i < 2. Inr 7 = (Inr (balances ! i) :: error + rat)"
    by (auto simp: g)
  from l obtain x y where xy: "balances = [x, y]"
    by (cases balances; cases "tl balances") auto
  from n have "balances ! 0 = 7" "balances ! 1 = 7"
    by auto
  with xy have "balances = [7, 7]"
    by simp
  with b g show ?thesis
    by simp
qed

text \<open>
  C1, as the code has it. \<open>get_balance_batch\<close> awaits \<open>asyncio.gather\<close> without
  \<open>return_exceptions\<close> and returns a list of floats, so there is no per-account failure
  indicator: when the lookup of one address of the batch fails, the whole call raises
  the exception of a failed lookup, and the endpoint answers 400 with no balance at all.
\<close>

theorem batch_fails_as_a_unit:
  assumes "a \<in> set addresses" and "get_balance az tc a = Inl e"
  shows "\<exists>e' a'. a' \<in> set addresses \<and> get_balance az tc a' = Inl e'
           \<and> get_balance_batch az tc addresses = Inl e'
           \<and> endpoint_get_balance_batch az tc addresses = Inl (HTTPException 400 (str e'))"
proof -
  let ?tasks = "map (\<lambda>addr. (finished_at tc addr, get_balance az tc addr)) addresses"
  have "(finished_at tc a, Inl e) \<in> set ?tasks"
    using assms by force
  then have "first_raised ?tasks \<noteq> None"
    unfolding first_raised_None_iff by force
  then obtain t e' where fr: "first_raised ?tasks = Some (t, e')"
    by auto
  from first_raised_Some[OF fr] obtain a' where
    "a' \<in> set addresses" "get_balance az tc a' = Inl e'"
    by auto
  then show ?thesis
    using fr by (auto simp: get_balance_batch_def gather_def endpoint_get_balance_batch_def)
qed

theorem batch_fails_as_a_unit_witness:
  "get_balance az0 tc_one_fails addr1 = Inl (Exception ''execution reverted'')
   \<and> (\<exists>e'. get_balance_batch az0 tc_one_fails [addr1, addr2] = Inl e'
           \<and> endpoint_get_balance_batch az0 tc_one_fails [addr1, addr2]
               = Inl (HTTPException 400 (str e')))"
proof -
  have h1: "addr1 \<in> set [addr1, addr2]"
    by simp
  have h2: "get_balance az0 tc_one_fails addr1 = Inl (Exception ''execution reverted'')"
    by (simp add: get_balance_def tc_one_fails_def)
  show ?thesis
    using h2 batch_fails_as_a_unit [OF h1 h2] by blast
qed

text \<open>
  C1 as the specification states it fails: for the batch \<open>[addr1, addr2]\<close>, where the
  lookup of \<open>addr1\<close> fails and that of \<open>addr2\<close> returns 7, the call raises and the
  endpoint answers 400; the balance of \<open>addr2\<close> is not delivered.
\<close>

theorem batch_isolation_counterexample:
  "get_balance az0 tc_one_fails addr1 = Inl (Exception ''execution reverted'')
   \<and> get_balance az0 tc_one_fails addr2 = Inr 7
   \<and> get_balance_batch az0 tc_one_fails [addr1, addr2] = Inl (Exception ''execution reverted'')
   \<and> endpoint_get_balance_batch az0 tc_one_fails [addr1, addr2]
       = Inl (HTTPException 400 ''execution reverted'')"
  by (simp add: tc_one_fails_def az0_def addr1_def addr2_def get_balance_def to_decimal_def
      endpoint_get_balance_batch_def get_balance_batch_def gather_def finished_at_def
      true_div_7)

section \<open>The balance ledger\<close>

lemma map_of_dict_add:
  "map_of (dict_add k d b) = (map_of b)(k \<mapsto> balance_of b k + d)"
  by (induction b) (auto simp: balance_of_def fun_eq_iff)

lemma balance_of_dict_add:
  "balance_of (dict_add k d b) a = (if a = k then balance_of b k + d else balance_of b a)"
  by (simp add: balance_of_def map_of_dict_add)

lemma keys_dict_add:
  "map fst (dict_add k d b) = (if k \<in> set (map fst b) then map fst b else map fst b @ [k])"
  by (induction b) (fastforce simp: image_iff)+

lemma distinct_dict_add: "distinct (map fst b) \<Longrightarrow> distinct (map fst (dict_add k d b))"
  by (simp add: keys_dict_add)

lemma distinct_apply_event: "distinct (map fst b) \<Longrightarrow> distinct (map fst (apply_event b e))"
  by (simp add: apply_event_def Let_def distinct_dict_add)

lemma distinct_foldl: "distinct (map fst b) \<Longrightarrow> distinct (map fst (foldl apply_event b es))"
  by (induction es arbitrary: b) (simp_all add: distinct_apply_event)

lemma distinct_aggregate: "distinct (map fst (aggregate es))"
  by (simp add: aggregate_def distinct_foldl)


lemma balance_of_apply_event:
  "balance_of (apply_event b e) a = balance_of b a + delta e a"
proof (cases "from_addr e"; cases "to_addr e")
qed (simp_all add: apply_event_def delta_def Let_def balance_of_dict_add counts_def)

lemma keys_apply_event:
  "fst ` set (apply_event b e) =
     fst ` set b \<union> {a. counts (Some a) \<and> (from_addr e = Some a \<or> to_addr e = Some a)}"
proof -
  have k: "fst ` set (dict_add k d c) = insert k (fst ` set c)" for k d c
    using arg_cong[OF keys_dict_add[of k d c], of set] by auto
  show ?thesis
    by (cases "from_addr e"; cases "to_addr e") (auto simp: apply_event_def Let_def k counts_def)
qed


lemma balance_of_foldl:
  "balance_of (foldl apply_event b es) a = balance_of b a + sum_list (map (\<lambda>e. delta e a) es)"
  by (induction es arbitrary: b) (simp_all add: balance_of_apply_event)

lemma keys_foldl:
  "fst ` set (foldl apply_event b es) = fst ` set b \<union> (\<Union>e \<in> set es. touched e)"
  by (induction es arbitrary: b) (auto simp: keys_apply_event touched_def)

lemma map_of_eqI2:
  assumes "distinct (map fst b)" "distinct (map fst c)" "fst ` set b = fst ` set c"
    "\<And>a. balance_of b a = balance_of c a"
  shows "map_of b = map_of c"
proof
  fix a
  show "map_of b a = map_of c a"
  proof (cases "a \<in> fst ` set b")
    case True
    then obtain v w where "map_of b a = Some v" "map_of c a = Some w"
      using assms(3) by (metis domD dom_map_of_conv_image_fst)
    with assms(4)[of a] show ?thesis by (simp add: balance_of_def)
  next
    case False
    then show ?thesis using assms(3) by (metis map_of_eq_None_iff)
  qed
qed

text \<open>
  C6, as the code has it. An event subtracts its amount from the sender's balance unless
  the sender is the zero address (or an empty string), and adds it to the receiver's
  balance unless the receiver is the zero address (or an empty string). Hence a mint to a
  real account writes the receiver's entry only and a burn from a real account the
  sender's only: exactly that one account's balance changes when the amount is not zero,
  and no balance changes when the amount is zero. An event from the zero address to the
  zero address leaves the ledger as it is.
\<close>

theorem apply_event_sides:
  "(\<forall>a. balance_of (apply_event b \<lparr>from_addr = Some f, to_addr = Some t, val = Some v\<rparr>) a
            = balance_of b a - (if a = f \<and> f \<noteq> [] \<and> f \<noteq> ZERO_ADDRESS then v else 0)
                + (if a = t \<and> t \<noteq> [] \<and> t \<noteq> ZERO_ADDRESS then v else 0))
   \<and> (f = ZERO_ADDRESS \<and> t \<noteq> ZERO_ADDRESS \<and> t \<noteq> [] \<longrightarrow>
        apply_event b \<lparr>from_addr = Some f, to_addr = Some t, val = Some v\<rparr> = dict_add t v b
        \<and> {a. balance_of (apply_event b \<lparr>from_addr = Some f, to_addr = Some t, val = Some v\<rparr>) a
                 \<noteq> balance_of b a} = (if v = 0 then {} else {t}))
   \<and> (t = ZERO_ADDRESS \<and> f \<noteq> ZERO_ADDRESS \<and> f \<noteq> [] \<longrightarrow>
        apply_event b \<lparr>from_addr = Some f, to_addr = Some t, val = Some v\<rparr> = dict_add f (- v) b
        \<and> {a. balance_of (apply_event b \<lparr>from_addr = Some f, to_addr = Some t, val = Some v\<rparr>) a
                 \<noteq> balance_of b a} = (if v = 0 then {} else {f}))
   \<and> (f = ZERO_ADDRESS \<and> t = ZERO_ADDRESS \<longrightarrow>
        apply_event b \<lparr>from_addr = Some f, to_addr = Some t, val = Some v\<rparr> = b)"
proof -
  let ?e = "\<lparr>from_addr = Some f, to_addr = Some t, val = Some v\<rparr>"
  have cf: "counts (from_addr ?e) \<longleftrightarrow> f \<noteq> [] \<and> f \<noteq> ZERO_ADDRESS"
    and ct: "counts (to_addr ?e) \<longleftrightarrow> t \<noteq> [] \<and> t \<noteq> ZERO_ADDRESS"
    by (simp_all add: counts_def)
  have bal: "balance_of (apply_event b ?e) a
            = balance_of b a - (if a = f \<and> f \<noteq> [] \<and> f \<noteq> ZERO_ADDRESS then v else 0)
                + (if a = t \<and> t \<noteq> [] \<and> t \<noteq> ZERO_ADDRESS then v else 0)" for a
    using cf ct by (auto simp: balance_of_apply_event delta_def)
  have mint: "apply_event b ?e = dict_add t v b"
    if "f = ZERO_ADDRESS" "t \<noteq> ZERO_ADDRESS" "t \<noteq> []"
    using that cf ct by (simp add: apply_event_def)
  have burn: "apply_event b ?e = dict_add f (- v) b"
    if "t = ZERO_ADDRESS" "f \<noteq> ZERO_ADDRESS" "f \<noteq> []"
    using that cf ct by (simp add: apply_event_def)
  have mint_set: "{a. balance_of (apply_event b ?e) a \<noteq> balance_of b a} = (if v = 0 then {} else {t})"
    if "f = ZERO_ADDRESS" "t \<noteq> ZERO_ADDRESS" "t \<noteq> []"
    unfolding mint [OF that] by (auto simp: balance_of_dict_add)
  have burn_set: "{a. balance_of (apply_event b ?e) a \<noteq> balance_of b a} = (if v = 0 then {} else {f})"
    if "t = ZERO_ADDRESS" "f \<noteq> ZERO_ADDRESS" "f \<noteq> []"
    unfolding burn [OF that] by (auto simp: balance_of_dict_add)
  have none: "apply_event b ?e = b" if "f = ZERO_ADDRESS" "t = ZERO_ADDRESS"
    using that cf ct by (simp add: apply_event_def)
  show ?thesis
    using bal mint burn mint_set burn_set none by blast
qed

theorem apply_event_sides_witness:
  "apply_event [] mint1 = dict_add addr1 100 []
   \<and> {a. balance_of (apply_event [] mint1) a \<noteq> balance_of [] a} = {addr1}
   \<and> balance_of (apply_event [] mint1) addr1 = 100"
proof -
  have h: "addr1 \<noteq> []" "addr1 \<noteq> ZERO_ADDRESS"
    by (simp_all add: ZERO_ADDRESS_def addr1_def)
  show ?thesis
    using h apply_event_sides [of "[]" ZERO_ADDRESS addr1 100]
    by (simp add: mint1_def balance_of_def)
qed

text \<open>
  C6 as the specification states it fails for the amount 0: a mint of 0 to \<open>addr1\<close>
  creates the entry of \<open>addr1\<close> with balance 0 and changes no account's balance, and a
  burn of 0 from \<open>addr1\<close> changes none either.
\<close>

theorem zero_amount_mint_counterexample:
  "apply_event [] mint_nothing = [(addr1, 0)]
   \<and> {a. balance_of (apply_event [] mint_nothing) a \<noteq> balance_of [] a} = {}
   \<and> {a. balance_of (apply_event [(addr1, 7)] burn_nothing) a \<noteq> balance_of [(addr1, 7)] a} = {}"
  by (auto simp: mint_nothing_def burn_nothing_def apply_event_def counts_def balance_of_def
      ZERO_ADDRESS_def addr1_def)

text \<open>
  C7. Aggregating the same events in any order yields the same ledger, as a mapping from
  account to balance; in particular the same sequence always yields the same ledger.
\<close>

theorem aggregate_order_irrelevant:
  assumes "mset es = mset es'"
  shows "map_of (aggregate es) = map_of (aggregate es')"
proof (rule map_of_eqI2)
  show "distinct (map fst (aggregate es))" "distinct (map fst (aggregate es'))"
    by (rule distinct_aggregate)+
  have "set es = set es'"
    using assms by (rule mset_eq_setD)
  then show "fst ` set (aggregate es) = fst ` set (aggregate es')"
    by (simp add: aggregate_def keys_foldl)
  fix a
  have "mset (map (\<lambda>e. delta e a) es) = mset (map (\<lambda>e. delta e a) es')"
    using assms by (metis mset_map)
  then have "sum_list (map (\<lambda>e. delta e a) es) = sum_list (map (\<lambda>e. delta e a) es')"
    by (metis sum_mset_sum_list)
  then show "balance_of (aggregate es) a = balance_of (aggregate es') a"
    by (simp add: aggregate_def balance_of_foldl)
qed


theorem aggregate_order_irrelevant_witness:
  "map_of (aggregate [mint1, move12]) = map_of (aggregate [move12, mint1])"
  using aggregate_order_irrelevant [of "[mint1, move12]" "[move12, mint1]"] by simp

section \<open>The chunked fetch: a chunk that does not succeed\<close>

text \<open>
  Only a successful query assigns \<open>from_block\<close>. When the inner loop is left after a
  failure or after \<open>max_retries\<close> timeouts, \<open>from_block\<close> is what it was, and the outer
  loop starts the same chunk again with \<open>retries = 0\<close>.
\<close>

lemma retry_loop_stuck:
  assumes "\<forall>k f t ls. get_logs nd k f t \<noteq> Logs ls"
  shows "from_block (retry_loop nd max_retries to_block retries s) = from_block s"
  using assms
proof (induction nd max_retries to_block retries s rule: retry_loop.induct)
  case (1 nd max_retries to_block retries s)
  show ?case
  proof (cases "retries < max_retries")
    case False
    then show ?thesis by (subst retry_loop.simps) simp
  next
    case True
    show ?thesis
    proof (cases "get_logs nd (length (queries s)) (from_block s) to_block")
      case (Logs ls)
      with "1.prems" show ?thesis by simp
    next
      case Timeout
      with True "1.IH"[OF True Timeout "1.prems"] show ?thesis
        by (subst retry_loop.simps) simp
    next
      case (Failed msg)
      with True show ?thesis by (subst retry_loop.simps) simp
    qed
  qed
qed

lemma scan_loop_returns_only_unstuck:
  assumes "scan_loop nd m c cb s = Some r"
  shows "\<not> ((\<forall>k f t ls. get_logs nd k f t \<noteq> Logs ls) \<and> from_block s \<le> cb)"
proof (rule scan_loop.raw_induct
    [where P = "\<lambda>nd m c cb s r. \<not> ((\<forall>k f t ls. get_logs nd k f t \<noteq> Logs ls) \<and> from_block s \<le> cb)",
     OF _ assms])
  fix loop :: "node \<Rightarrow> int \<Rightarrow> int \<Rightarrow> int \<Rightarrow> scan \<Rightarrow> scan option"
  fix nd m c cb s r
  assume IH: "\<And>nd m c cb s r. loop nd m c cb s = Some r \<Longrightarrow>
     \<not> ((\<forall>k f t ls. get_logs nd k f t \<noteq> Logs ls) \<and> from_block s \<le> cb)"
  assume step: "(if from_block s \<le> cb
      then loop nd m c cb (retry_loop nd m (min (from_block s + c - 1) cb) 0 s)
      else Some s) = Some r"
  show "\<not> ((\<forall>k f t ls. get_logs nd k f t \<noteq> Logs ls) \<and> from_block s \<le> cb)"
  proof
    assume a: "(\<forall>k f t ls. get_logs nd k f t \<noteq> Logs ls) \<and> from_block s \<le> cb"
    let ?s' = "retry_loop nd m (min (from_block s + c - 1) cb) 0 s"
    have "from_block ?s' = from_block s"
      using a by (simp add: retry_loop_stuck)
    moreover have "loop nd m c cb ?s' = Some r"
      using step a by simp
    ultimately show False
      using IH [of nd m c cb ?s' r] a by simp
  qed
qed

lemma scan_loop_never_returns:
  assumes "\<forall>k f t ls. get_logs nd k f t \<noteq> Logs ls" and "from_block s \<le> current_block"
  shows "scan_loop nd max_retries chunk_size current_block s = None"
  using assms scan_loop_returns_only_unstuck [of nd max_retries chunk_size current_block s]
  by (cases "scan_loop nd max_retries chunk_size current_block s") auto

text \<open>
  C2 on the code. At height 0 with a range query that always fails with a non-timeout
  error, one pass of the inner loop issues the query once and leaves \<open>from_block\<close> at 0;
  the outer loop repeats the chunk \<open>[0, 0]\<close> for ever: the scan, and with it
  \<open>get_top_holders\<close>, never returns.
\<close>

theorem failed_chunk_is_repeated_forever:
  "retry_loop node_always_fails 3 0 0 \<lparr>from_block = 0, events = [], queries = [], sleeps = []\<rparr>
     = \<lparr>from_block = 0, events = [], queries = [(0, 0)], sleeps = []\<rparr>
   \<and> scan_all node_always_fails 3 1000000 = None
   \<and> get_all_transfer_events node_always_fails 3 1000000 = None
   \<and> get_top_holders az0 node_always_fails 10 = None"
proof -
  have stuck: "\<forall>k f t ls. get_logs node_always_fails k f t \<noteq> Logs ls"
    by (simp add: node_always_fails_def)
  have loop: "scan_loop node_always_fails 3 1000000 0
                \<lparr>from_block = 0, events = [], queries = [], sleeps = []\<rparr> = None"
    by (rule scan_loop_never_returns [OF stuck]) simp
  have bn: "block_number node_always_fails = Inr 0"
    by (simp add: node_always_fails_def)
  have all: "scan_all node_always_fails 3 1000000 = None"
    by (simp add: scan_all_def bn loop)
  have one: "retry_loop node_always_fails 3 0 0
               \<lparr>from_block = 0, events = [], queries = [], sleeps = []\<rparr>
             = \<lparr>from_block = 0, events = [], queries = [(0, 0)], sleeps = []\<rparr>"
    by (simp add: node_always_fails_def retry_loop.simps)
  show ?thesis
    using one all by (simp add: get_all_transfer_events_def get_top_holders_def)
qed

text \<open>
  C3 on the code. At height 0 with a range query that times out three times and then
  answers, the scan issues four queries for the chunk \<open>[0, 0]\<close>: three in the first pass
  of the inner loop, after which it has slept 2, 4 and 8 seconds, and a fourth in the
  next pass of the outer loop over the same chunk.
\<close>

theorem fourth_attempt_after_three_timeouts:
  "scan_all node_three_timeouts 3 1000000 =
     Some (Inr \<lparr>from_block = 1, events = [],
                 queries = [(0, 0), (0, 0), (0, 0), (0, 0)], sleeps = [2, 4, 8]\<rparr>)"
  by (simp add: scan_all_def node_three_timeouts_def scan_loop.simps retry_loop.simps)

section \<open>The chunked fetch: every query succeeds\<close>

lemma retry_loop_success:
  assumes "0 < m" and "get_logs nd (length (queries s)) (from_block s) tb = Logs ls"
  shows "retry_loop nd m tb 0 s =
     s\<lparr>from_block := tb + 1, events := events s @ parse_logs nd ls,
       queries := queries s @ [(from_block s, tb)]\<rparr>"
  using assms by (subst retry_loop.simps) simp

lemma below_last_chunk:
  fixes C H :: int
  assumes "0 < C" "0 \<le> H" "int j \<le> H div C"
  shows "int j * C \<le> H"
proof -
  have "int j * C \<le> (H div C) * C"
    using assms by (intro mult_right_mono) auto
  moreover have "(H div C) * C + H mod C = H"
    by (rule div_mult_mod_eq)
  moreover have "0 \<le> H mod C"
    using assms by simp
  ultimately show ?thesis
    by linarith
qed

lemma past_last_chunk:
  fixes C H :: int
  assumes "0 < C"
  shows "H < (H div C + 1) * C"
proof -
  have "C * (H div C) + H mod C = H"
    by (rule mult_div_mod_eq)
  moreover have "H mod C < C"
    using assms by simp
  moreover have "(H div C + 1) * C = C * (H div C) + C"
    by (simp add: algebra_simps)
  ultimately show ?thesis
    by linarith
qed

lemma scan_loop_all_ok:
  assumes ok: "\<forall>k f t. \<exists>ls. get_logs nd k f t = Logs ls"
    and m: "0 < m" and C: "0 < C" and H: "0 \<le> H"
  shows "j \<le> nat (H div C + 1) \<Longrightarrow>
     (if j < nat (H div C + 1) then from_block s = int j * C else H < from_block s) \<Longrightarrow>
     \<exists>s'. scan_loop nd m C H s = Some s'
        \<and> queries s' = queries s @ map (\<lambda>i. (int i * C, min (int i * C + C - 1) H)) [j..<nat (H div C + 1)]
        \<and> sleeps s' = sleeps s"
proof (induction "nat (H div C + 1) - j" arbitrary: j s)
  case 0
  then have "H < from_block s" by simp
  then have "scan_loop nd m C H s = Some s"
    by (subst scan_loop.simps) simp
  with 0 show ?case by simp
next
  case (Suc d)
  let ?n = "nat (H div C + 1)"
  have q: "0 \<le> H div C" using C H by (simp add: pos_imp_zdiv_nonneg_iff)
  from Suc.hyps(2) have jn: "j < ?n" by simp
  with Suc.prems have fb: "from_block s = int j * C" by simp
  from jn q have jq: "int j \<le> H div C" by simp
  have le: "from_block s \<le> H" using below_last_chunk[OF C H jq] fb by simp
  let ?tb = "min (from_block s + C - 1) H"
  obtain ls where ls: "get_logs nd (length (queries s)) (from_block s) ?tb = Logs ls"
    using ok by blast
  let ?s1 = "s\<lparr>from_block := ?tb + 1, events := events s @ parse_logs nd ls,
       queries := queries s @ [(from_block s, ?tb)]\<rparr>"
  have step: "scan_loop nd m C H s = scan_loop nd m C H ?s1"
    using le retry_loop_success[OF m ls] by (subst scan_loop.simps) simp
  have inv: "if Suc j < ?n then from_block ?s1 = int (Suc j) * C else H < from_block ?s1"
  proof (cases "Suc j < ?n")
    case True
    then have "int (Suc j) \<le> H div C" using q by simp
    from below_last_chunk[OF C H this] have "int j * C + C \<le> H"
      by (simp add: algebra_simps)
    then show ?thesis using True fb by (simp add: algebra_simps)
  next
    case False
    with jn have "int j = H div C" using q by simp
    with past_last_chunk[OF C, of H] have "H < int j * C + C"
      by (simp add: algebra_simps)
    then show ?thesis using False fb by simp
  qed
  have d: "d = ?n - Suc j" using Suc.hyps(2) by simp
  have "Suc j \<le> ?n" using jn by simp
  from Suc.hyps(1)[OF d this inv] obtain s' where
    s': "scan_loop nd m C H ?s1 = Some s'"
    "queries s' = queries ?s1 @ map (\<lambda>i. (int i * C, min (int i * C + C - 1) H)) [Suc j..<?n]"
    "sleeps s' = sleeps ?s1"
    by blast
  have "[j..<?n] = j # [Suc j..<?n]" using jn by (simp add: upt_conv_Cons)
  then show ?case using s' step fb by simp
qed

lemma scan_all_all_ok:
  assumes "block_number nd = Inr H" and "\<forall>k f t. \<exists>ls. get_logs nd k f t = Logs ls"
    and "0 < m" and "0 < C" and "0 \<le> H"
  shows "\<exists>s. scan_all nd m C = Some (Inr s) \<and> queries s = chunks C H \<and> sleeps s = []"
proof -
  let ?s0 = "\<lparr>from_block = 0, events = [], queries = [], sleeps = []\<rparr>"
  have q: "0 \<le> H div C" using assms by (simp add: pos_imp_zdiv_nonneg_iff)
  have "if 0 < nat (H div C + 1) then from_block ?s0 = int 0 * C else H < from_block ?s0"
    using q by simp
  from scan_loop_all_ok[OF assms(2-5) _ this] obtain s' where
    "scan_loop nd m C H ?s0 = Some s'" "queries s' = chunks C H" "sleeps s' = []"
    by (auto simp: chunks_def)
  then show ?thesis using assms(1) by (simp add: scan_all_def)
qed


lemma length_chunks: "length (chunks C H) = nat (H div C + 1)"
  by (simp add: chunks_def)

lemma nth_chunks:
  "i < length (chunks C H) \<Longrightarrow> chunks C H ! i = (int i * C, min (int i * C + C - 1) H)"
  by (simp add: chunks_def)

lemma ceiling_chunks:
  fixes C H :: int
  assumes "0 < C"
  shows "\<lceil>(of_int (H + 1) :: rat) / of_int C\<rceil> = H div C + 1"
proof (rule ceiling_unique)
  have e: "(H div C) * C + H mod C = H"
    by (rule div_mult_mod_eq)
  have m: "0 \<le> H mod C" "H mod C < C"
    using assms by simp_all
  have c: "(0::rat) < of_int C"
    using assms by simp
  have "(H div C) * C < H + 1"
    using e m by linarith
  then have "(of_int ((H div C) * C) :: rat) < of_int (H + 1)"
    by (simp only: of_int_less_iff)
  then show "(of_int (H div C + 1) :: rat) - 1 < of_int (H + 1) / of_int C"
    using c by (simp add: pos_less_divide_eq)
  have "(H div C + 1) * C = (H div C) * C + C"
    by (simp add: algebra_simps)
  then have "H + 1 \<le> (H div C + 1) * C"
    using e m by linarith
  then have "(of_int (H + 1) :: rat) \<le> of_int ((H div C + 1) * C)"
    by (simp only: of_int_le_iff)
  then show "(of_int (H + 1) :: rat) / of_int C \<le> of_int (H div C + 1)"
    using c by (simp add: pos_divide_le_eq)
qed

lemma chunks_contiguous:
  fixes C H :: int
  assumes "0 < C" "0 \<le> H" "Suc i < length (chunks C H)"
  shows "fst (chunks C H ! Suc i) = snd (chunks C H ! i) + 1"
proof -
  have q: "0 \<le> H div C" using assms by (simp add: pos_imp_zdiv_nonneg_iff)
  have "int (Suc i) \<le> H div C" using assms(3) q by (simp add: length_chunks)
  from below_last_chunk[OF assms(1,2) this] have "int i * C + C \<le> H"
    by (simp add: algebra_simps)
  then show ?thesis
    using assms(3) by (simp add: nth_chunks algebra_simps)
qed

lemma chunks_ends:
  fixes C H :: int
  assumes "0 < C" "0 \<le> H"
  shows "chunks C H \<noteq> [] \<and> fst (hd (chunks C H)) = 0 \<and> snd (last (chunks C H)) = H"
proof -
  let ?n = "nat (H div C + 1)"
  have q: "0 \<le> H div C" using assms by (simp add: pos_imp_zdiv_nonneg_iff)
  then have n: "0 < ?n" by simp
  then have ne: "chunks C H \<noteq> []" using length_chunks[of C H] by auto
  have h: "fst (hd (chunks C H)) = 0"
    using ne n by (simp add: hd_conv_nth nth_chunks length_chunks)
  have "int (?n - 1) = H div C" using q by simp
  with past_last_chunk[OF assms(1), of H] have "H < int (?n - 1) * C + C"
    by (simp add: algebra_simps)
  then have "snd (last (chunks C H)) = H"
    using ne n by (simp add: last_conv_nth nth_chunks length_chunks)
  with ne h show ?thesis by simp
qed

lemma chunks_cover:
  fixes C H b :: int
  assumes "0 < C" "0 \<le> b" "b \<le> H"
  shows "\<exists>!i. i < length (chunks C H) \<and> fst (chunks C H ! i) \<le> b \<and> b \<le> snd (chunks C H ! i)"
proof (rule ex1I [of _ "nat (b div C)"])
  have H: "0 \<le> H" using assms by simp
  have qb: "0 \<le> b div C" using assms by (simp add: pos_imp_zdiv_nonneg_iff)
  have "b div C \<le> H div C" using assms by (simp add: zdiv_mono1)
  then have lt: "nat (b div C) < length (chunks C H)"
    using qb by (simp add: length_chunks)
  have e: "(b div C) * C + b mod C = b"
    by (rule div_mult_mod_eq)
  have m: "0 \<le> b mod C" "b mod C < C"
    using assms by simp_all
  have "(b div C) * C \<le> b" "b \<le> (b div C) * C + C - 1"
    using e m by linarith+
  then show "nat (b div C) < length (chunks C H) \<and> fst (chunks C H ! nat (b div C)) \<le> b
      \<and> b \<le> snd (chunks C H ! nat (b div C))"
    using lt qb assms(3) by (simp add: nth_chunks)
next
  fix i
  assume a: "i < length (chunks C H) \<and> fst (chunks C H ! i) \<le> b \<and> b \<le> snd (chunks C H ! i)"
  then have i: "i < length (chunks C H)"
    by simp
  from a have "int i * C \<le> b" "b \<le> int i * C + C - 1"
    by (simp_all add: nth_chunks [OF i])
  then have "b = C * int i + (b - int i * C)" "0 \<le> b - int i * C" "b - int i * C < C"
    by (simp_all add: algebra_simps)
  then have "b div C = int i"
    by (rule int_div_pos_eq)
  then show "i = nat (b div C)" by simp
qed

text \<open>
  C9. When every range query succeeds, the fetch over the blocks 0 to \<open>H\<close> with chunk
  size \<open>C\<close> returns, having issued exactly \<open>\<lceil>(H + 1) / C\<rceil>\<close> range queries and slept
  never. The i-th query is for the blocks \<open>i * C\<close> to \<open>i * C + C - 1\<close>, cut at \<open>H\<close>: the
  first starts at 0, each next one starts right after the one before, the last ends at
  \<open>H\<close>, and every block from 0 to \<open>H\<close> lies in exactly one of them.
\<close>

theorem chunked_fetch_covers_range:
  assumes "block_number nd = Inr H"
    and "\<forall>k f t. \<exists>ls. get_logs nd k f t = Logs ls"
    and "0 < max_retries" and "0 < C" and "0 \<le> H"
  shows "\<exists>s. scan_all nd max_retries C = Some (Inr s)
     \<and> length (queries s) = nat \<lceil>(of_int (H + 1) :: rat) / of_int C\<rceil>
     \<and> (\<forall>i < length (queries s). queries s ! i = (int i * C, min (int i * C + C - 1) H))
     \<and> fst (hd (queries s)) = 0
     \<and> snd (last (queries s)) = H
     \<and> (\<forall>i. Suc i < length (queries s) \<longrightarrow>
           fst (queries s ! Suc i) = snd (queries s ! i) + 1)
     \<and> (\<forall>b. 0 \<le> b \<and> b \<le> H \<longrightarrow>
           (\<exists>!i. i < length (queries s) \<and> fst (queries s ! i) \<le> b \<and> b \<le> snd (queries s ! i)))
     \<and> sleeps s = []"
proof -
  from scan_all_all_ok [OF assms] obtain s where
    s: "scan_all nd max_retries C = Some (Inr s)" and q: "queries s = chunks C H"
    and sl: "sleeps s = []"
    by blast
  have len: "length (chunks C H) = nat \<lceil>(of_int (H + 1) :: rat) / of_int C\<rceil>"
    by (simp only: length_chunks ceiling_chunks [OF assms(4)])
  have nth: "\<forall>i < length (chunks C H). chunks C H ! i = (int i * C, min (int i * C + C - 1) H)"
    by (simp add: nth_chunks)
  have ends: "fst (hd (chunks C H)) = 0" "snd (last (chunks C H)) = H"
    using chunks_ends [OF assms(4,5)] by simp_all
  have cont: "\<forall>i. Suc i < length (chunks C H) \<longrightarrow>
      fst (chunks C H ! Suc i) = snd (chunks C H ! i) + 1"
    using chunks_contiguous [OF assms(4,5)] by blast
  have cover: "\<forall>b. 0 \<le> b \<and> b \<le> H \<longrightarrow>
      (\<exists>!i. i < length (chunks C H) \<and> fst (chunks C H ! i) \<le> b \<and> b \<le> snd (chunks C H ! i))"
    using chunks_cover [OF assms(4)] by blast
  show ?thesis
    using s sl len nth ends cont cover unfolding q [symmetric] by blast
qed

theorem chunked_fetch_covers_range_witness:
  "\<exists>s. scan_all node_quiet 3 1000000 = Some (Inr s)
     \<and> length (queries s) = 3
     \<and> queries s ! 2 = (2000000, 2499999)
     \<and> snd (last (queries s)) = 2499999
     \<and> sleeps s = []"
proof -
  have h1: "block_number node_quiet = Inr 2499999"
    by (simp add: node_quiet_def)
  have h2: "\<forall>k f t. \<exists>ls. get_logs node_quiet k f t = Logs ls"
    by (simp add: node_quiet_def)
  from chunked_fetch_covers_range [OF h1 h2, of 3 1000000] obtain s where
    s: "scan_all node_quiet 3 1000000 = Some (Inr s)"
    and len: "length (queries s) = nat \<lceil>(of_int (2499999 + 1) :: rat) / of_int 1000000\<rceil>"
    and nth: "\<forall>i < length (queries s).
                queries s ! i = (int i * 1000000, min (int i * 1000000 + 1000000 - 1) 2499999)"
    and lst: "snd (last (queries s)) = 2499999"
    and sl: "sleeps s = []"
    by auto
  have "\<lceil>(5::rat) / 2\<rceil> = 3"
    by (rule ceiling_unique) simp_all
  then have l3: "length (queries s) = 3"
    using len by simp
  with nth have "queries s ! 2 = (2000000, 2499999)"
    by simp
  with s l3 lst sl show ?thesis
    by blast
qed

end
